theory Spec2Isabelle
  imports Main
begin

section \<open>JavaScript strings\<close>

text \<open>
  A JavaScript string is a sequence of UTF-16 code units; \<open>length\<close>, \<open>slice\<close> and
  \<open>trim\<close> count code units. A code unit is modelled by its numeric value, so that the
  ellipsis U+2026 appended by \<open>truncate\<close> is one element, as it is in the worker.
\<close>

type_synonym jstring = "nat list"

definition js :: "string \<Rightarrow> jstring" where
  "js s = map of_char s"

text \<open>A value of type \<open>string | null | undefined\<close>; \<open>None\<close> stands for both null and undefined.\<close>

definition truthy :: "jstring option \<Rightarrow> bool" where
  "truthy v = (case v of None \<Rightarrow> False | Some s \<Rightarrow> s \<noteq> [])"

text \<open>\<open>a || b\<close> on optional strings: \<open>a\<close> when it is truthy, otherwise \<open>b\<close> whatever it is.\<close>

definition js_or :: "jstring option \<Rightarrow> jstring option \<Rightarrow> jstring option" where
  "js_or a b = (if truthy a then a else b)"

text \<open>\<open>a || null\<close>.\<close>

definition or_null :: "jstring option \<Rightarrow> jstring option" where
  "or_null a = (if truthy a then a else None)"

text \<open>The line terminators of ECMAScript: LF, CR, U+2028, U+2029.\<close>

definition is_line_terminator :: "nat \<Rightarrow> bool" where
  "is_line_terminator c = (c = 10 \<or> c = 13 \<or> c = 8232 \<or> c = 8233)"

text \<open>
  What \<open>String.prototype.trim\<close> strips and the regular expression class \<open>\s\<close> matches:
  the WhiteSpace code points and the line terminators.
\<close>

definition is_space :: "nat \<Rightarrow> bool" where
  "is_space c =
     (c = 9 \<or> c = 10 \<or> c = 11 \<or> c = 12 \<or> c = 13 \<or> c = 32 \<or> c = 160 \<or> c = 5760
      \<or> (8192 \<le> c \<and> c \<le> 8202) \<or> c = 8232 \<or> c = 8233 \<or> c = 8239 \<or> c = 8287
      \<or> c = 12288 \<or> c = 65279)"

definition trim :: "jstring \<Rightarrow> jstring" where
  "trim s = rev (dropWhile is_space (rev (dropWhile is_space s)))"

text \<open>\<open>s.split(/\r?\n/)\<close>: a CR directly followed by LF, or a lone LF, ends a piece.\<close>

fun split_lines :: "jstring \<Rightarrow> jstring list" where
  "split_lines [] = [[]]"
| "split_lines [c] = (if c = 10 then [[], []] else [[c]])"
| "split_lines (c # d # cs) =
     (if c = 13 \<and> d = 10 then [] # split_lines cs
      else if c = 10 then [] # split_lines (d # cs)
      else (case split_lines (d # cs) of
              [] \<Rightarrow> [[c]]
            | l # ls \<Rightarrow> (c # l) # ls))"

text \<open>\<open>xs.join(" ")\<close>.\<close>

fun join_space :: "jstring list \<Rightarrow> jstring" where
  "join_space [] = []"
| "join_space [x] = x"
| "join_space (x # y # ys) = x @ [32] @ join_space (y # ys)"

text \<open>\<open>s.includes(t)\<close>.\<close>

fun js_includes :: "jstring \<Rightarrow> jstring \<Rightarrow> bool" where
  "js_includes [] t = (t = [])"
| "js_includes (c # cs) t = (take (length t) (c # cs) = t \<or> js_includes cs t)"

section \<open>Headline split\<close>

definition ellipsis :: nat where
  "ellipsis = 8230"

definition truncate_js :: "jstring \<Rightarrow> nat \<Rightarrow> jstring" where
  "truncate_js v mx = (if length v \<le> mx then v else take (mx - 1) v @ [ellipsis])"

record split_result =
  line1 :: jstring
  line2 :: "jstring option"

definition splitMessage :: "jstring \<Rightarrow> split_result" where
  "splitMessage message =
     (if message = [] then \<lparr>line1 = js ''Memory'', line2 = None\<rparr>
      else
        (case split_lines (trim message) of
           [] \<Rightarrow> \<lparr>line1 = js ''Memory'', line2 = None\<rparr>
         | first # rest \<Rightarrow>
             (let l1 = (if trim first \<noteq> [] then trim first else js ''Memory'');
                  l2 = or_null (Some (trim (join_space rest)))
              in \<lparr>line1 = truncate_js l1 120,
                  line2 = (case l2 of None \<Rightarrow> None | Some t \<Rightarrow> Some (truncate_js t 180))\<rparr>)))"

section \<open>The attachment tree\<close>

text \<open>
  \<open>FacebookAttachment\<close>: every field is optional. \<open>media?.image?.src\<close> is kept as one
  optional string and \<open>subattachments?.data\<close> as one optional list.
\<close>

datatype attachment = Attachment
  (media_image_src: "jstring option")
  (subattachments: "attachment list option")
  (att_description: "jstring option")
  (att_title: "jstring option")
  (att_type: "jstring option")
  (att_media_type: "jstring option")

text \<open>The inner \<open>walk\<close> of \<open>extractPhotoUrls\<close>: a node's own image first, then its children.\<close>

fun walk :: "attachment list \<Rightarrow> jstring list" where
  "walk [] = []"
| "walk (Attachment src subs d t ty mt # rest) =
     (if truthy src then [the src] else [])
     @ (case subs of
          None \<Rightarrow> []
        | Some ns \<Rightarrow> (if ns \<noteq> [] then walk ns else []))
     @ walk rest"

definition extractPhotoUrls :: "attachment list option \<Rightarrow> jstring list" where
  "extractPhotoUrls attachments =
     (case attachments of None \<Rightarrow> [] | Some dat \<Rightarrow> walk dat)"

text \<open>The loop of \<open>extractAttachmentText\<close> over \<open>attachments.data\<close>.\<close>

fun attachment_text :: "attachment list \<Rightarrow> jstring option" where
  "attachment_text [] = None"
| "attachment_text (Attachment src subs d t ty mt # rest) =
     (let text = js_or d t in
      if truthy text then text
      else
        (case subs of
           None \<Rightarrow> attachment_text rest
         | Some ns \<Rightarrow>
             (if ns \<noteq> [] \<and> truthy (attachment_text ns) then attachment_text ns
              else attachment_text rest)))"

definition extractAttachmentText :: "attachment list option \<Rightarrow> jstring option" where
  "extractAttachmentText attachments =
     (case attachments of None \<Rightarrow> None | Some dat \<Rightarrow> attachment_text dat)"

definition is_life_event :: "attachment \<Rightarrow> bool" where
  "is_life_event a =
     (att_type a = Some (js ''life_event'') \<or> att_media_type a = Some (js ''life_event''))"

definition getPrimaryAttachment :: "attachment list option \<Rightarrow> attachment option" where
  "getPrimaryAttachment attachments =
     (case attachments of
        None \<Rightarrow> None
      | Some dat \<Rightarrow>
          (case find is_life_event dat of
             Some life \<Rightarrow> Some life
           | None \<Rightarrow> (case dat of [] \<Rightarrow> None | a # _ \<Rightarrow> Some a)))"

section \<open>The message structurer\<close>

text \<open>
  The four regular expressions of \<open>parseStructuredMessage\<close> have one shape: a sequence of
  single-character items, each taken once or under a greedy star, followed by one capture
  group \<open>(c+)\<close> that ends the pattern. \<open>rx_here\<close> matches such a pattern at the start of
  the text with the backtracking order of ECMAScript (a star first tries to take one more
  character and gives it back when the rest fails) and returns the capture.
\<close>

datatype quant = One | Star

type_synonym rx_item = "(nat \<Rightarrow> bool) \<times> quant"

fun rx_here :: "rx_item list \<Rightarrow> (nat \<Rightarrow> bool) \<Rightarrow> jstring \<Rightarrow> jstring option" where
  "rx_here [] cap s = (if takeWhile cap s = [] then None else Some (takeWhile cap s))"
| "rx_here ((c, One) # r) cap [] = None"
| "rx_here ((c, One) # r) cap (x # xs) = (if c x then rx_here r cap xs else None)"
| "rx_here ((c, Star) # r) cap [] = rx_here r cap []"
| "rx_here ((c, Star) # r) cap (x # xs) =
     (if c x then
        (case rx_here ((c, Star) # r) cap xs of
           Some g \<Rightarrow> Some g
         | None \<Rightarrow> rx_here r cap (x # xs))
      else rx_here r cap (x # xs))"

text \<open>\<open>text.match(re)\<close> without the global flag: the leftmost position that matches.\<close>

fun rx_match :: "rx_item list \<Rightarrow> (nat \<Rightarrow> bool) \<Rightarrow> jstring \<Rightarrow> jstring option" where
  "rx_match items cap [] = rx_here items cap []"
| "rx_match items cap (x # xs) =
     (case rx_here items cap (x # xs) of
        Some g \<Rightarrow> Some g
      | None \<Rightarrow> rx_match items cap xs)"

text \<open>
  A lower-case ASCII letter of a pattern under the \<open>i\<close> flag matches itself and its
  upper-case form, and no code unit outside ASCII.
\<close>

definition ci :: "char \<Rightarrow> nat \<Rightarrow> bool" where
  "ci ch x = (x = of_char ch \<or> x + 32 = of_char ch)"

definition lits :: "string \<Rightarrow> rx_item list" where
  "lits w = map (\<lambda>ch. (ci ch, One)) w"

text \<open>The common tail \<open>\s*[:\-]\s*\<close> of the four patterns.\<close>

definition label_sep :: "rx_item list" where
  "label_sep = [(is_space, Star), (\<lambda>x. x = 58 \<or> x = 45, One), (is_space, Star)]"

text \<open>\<open>.\<close> without the \<open>s\<close> flag.\<close>

definition dot :: "nat \<Rightarrow> bool" where
  "dot x = (\<not> is_line_terminator x)"

text \<open>\<open>/life\s*event\s*name\s*[:\-]\s*(.+)/i\<close>\<close>

definition nameMatch :: "jstring \<Rightarrow> jstring option" where
  "nameMatch s =
     rx_match (lits ''life'' @ [(is_space, Star)] @ lits ''event'' @ [(is_space, Star)]
               @ lits ''name'' @ label_sep) dot s"

text \<open>\<open>/date\s*[:\-]\s*(.+)/i\<close>\<close>

definition dateMatch :: "jstring \<Rightarrow> jstring option" where
  "dateMatch s = rx_match (lits ''date'' @ label_sep) dot s"

text \<open>\<open>/type\s*[:\-]\s*(.+)/i\<close>\<close>

definition typeMatch :: "jstring \<Rightarrow> jstring option" where
  "typeMatch s = rx_match (lits ''type'' @ label_sep) dot s"

text \<open>\<open>/post\s*[:\-]\s*([\s\S]+)/i\<close>\<close>

definition postMatch :: "jstring \<Rightarrow> jstring option" where
  "postMatch s = rx_match (lits ''post'' @ label_sep) (\<lambda>_. True) s"

record parsed_message =
  title :: "jstring option"
  description :: "jstring option"
  eventDate :: "jstring option"
  eventType :: "jstring option"

definition parseStructuredMessage ::
  "jstring \<Rightarrow> jstring \<Rightarrow> attachment list option \<Rightarrow> attachment option \<Rightarrow> jstring option
   \<Rightarrow> parsed_message" where
  "parseStructuredMessage message fallbackDate attachments mainAttachment placeName =
     (let attachmentText = extractAttachmentText attachments;
          normalized = message;
          mainTitle = (case mainAttachment of None \<Rightarrow> None | Some a \<Rightarrow> map_option trim (att_title a));
          mainType = (case mainAttachment of None \<Rightarrow> None | Some a \<Rightarrow> att_type a);
          ttl = or_null (js_or (map_option trim (nameMatch normalized)) mainTitle);
          dateText = (if truthy (map_option trim (dateMatch normalized))
                      then trim (the (dateMatch normalized)) else fallbackDate);
          evDate = or_null (Some (trim dateText));
          evType = or_null (js_or (map_option trim (typeMatch normalized)) mainType);
          desc0 = (if truthy (postMatch normalized) then Some (trim (the (postMatch normalized)))
                   else if normalized \<noteq> [] then Some (trim normalized)
                   else if truthy attachmentText then attachmentText
                   else None);
          desc = (if truthy placeName \<and> truthy desc0 \<and> \<not> js_includes (the desc0) (the placeName)
                  then Some (the desc0 @ [10, 10] @ js ''Location: '' @ the placeName)
                  else desc0)
      in \<lparr>title = ttl, description = desc, eventDate = evDate, eventType = evType\<rparr>)"

section \<open>Source URL normalisation\<close>

text \<open>
  The \<open>URL\<close> class belongs to the runtime, not to the worker. A parsed URL is kept as its
  serialised scheme, authority and path, whether that path is opaque, its \<open>search\<close>
  (empty when the query is null, otherwise \<open>?\<close> and the query) and its \<open>hash\<close> (empty when
  the fragment is null, otherwise \<open>#\<close> and the fragment); \<open>toString\<close> concatenates the
  three texts. The constructor \<open>new URL(text)\<close> is a parameter: \<open>None\<close> where it throws.
\<close>

record url =
  url_base :: jstring
  url_opaque :: bool
  url_search :: jstring
  url_hash :: jstring

definition url_toString :: "url \<Rightarrow> jstring" where
  "url_toString u = url_base u @ url_search u @ url_hash u"

text \<open>
  What both setters do after clearing their component: when the path is opaque and
  neither a query nor a fragment is left, the trailing spaces of the path are removed.
\<close>

definition strip_opaque :: "url \<Rightarrow> url" where
  "strip_opaque u =
     (if url_opaque u \<and> url_hash u = [] \<and> url_search u = []
      then u\<lparr>url_base := rev (dropWhile (\<lambda>c. c = 32) (rev (url_base u)))\<rparr>
      else u)"

text \<open>\<open>u.search = ""\<close>\<close>

definition set_search_empty :: "url \<Rightarrow> url" where
  "set_search_empty u = strip_opaque (u\<lparr>url_search := []\<rparr>)"

text \<open>\<open>u.hash = ""\<close>\<close>

definition set_hash_empty :: "url \<Rightarrow> url" where
  "set_hash_empty u = strip_opaque (u\<lparr>url_hash := []\<rparr>)"

definition normalizeSourceUrl :: "(jstring \<Rightarrow> url option) \<Rightarrow> jstring \<Rightarrow> jstring" where
  "normalizeSourceUrl new_URL text =
     (case new_URL text of
        None \<Rightarrow> text
      | Some u \<Rightarrow> url_toString (set_hash_empty (set_search_empty u)))"

section \<open>The store, the bucket and the environment\<close>

text \<open>Decimal rendering of a number inside a template literal.\<close>

function show_nat :: "nat \<Rightarrow> jstring" where
  "show_nat n = (if n < 10 then [48 + n] else show_nat (n div 10) @ [48 + n mod 10])"
  by pat_completeness auto
termination
  by (relation "measure id") auto

datatype error = Error jstring | NetworkError | SyntaxError | R2Error

record event_row =
  ev_id :: nat
  external_id :: "jstring option"
  external_source :: "jstring option"
  event_date :: "jstring option"
  event_type :: "jstring option"
  event_name_line_1 :: "jstring option"
  event_name_line_2 :: "jstring option"
  event_description :: "jstring option"
  posted_by_name :: "jstring option"
  posted_by_photo :: "jstring option"
  date_added :: "jstring option"
  active :: int
  approved :: int
  origin :: jstring
  sync :: int
  created_at :: "jstring option"
  updated_at :: "jstring option"

record photo_row =
  ph_id :: nat
  event_id :: nat
  storage_key :: jstring
  public_url :: "jstring option"
  original_source_url :: "jstring option"
  position :: int
  ph_created_at :: "jstring option"
  ph_updated_at :: "jstring option"

record blob =
  blob_body :: "nat list"
  blob_content_type :: jstring

record feed_request =
  rq_limit :: int
  rq_after :: "jstring option"

datatype request = PhotoGet jstring | FeedGet feed_request | ProfileGet

text \<open>
  The mutable part: the two tables with their AUTOINCREMENT counters, the bucket, the
  number of UUIDs drawn so far and the log of outbound HTTP requests. Statements against
  the store are taken to succeed; network calls and bucket writes can fail.
\<close>

record sys_state =
  events :: "event_row list"
  event_seq :: nat
  photos :: "photo_row list"
  photo_seq :: nat
  bucket :: "jstring \<rightharpoonup> blob"
  uuid_ctr :: nat
  outbound :: "request list"

record photo_response =
  pr_status :: nat
  pr_content_type :: "jstring option"
  pr_body :: "nat list"

record facebook_post =
  post_id :: "jstring option"
  message :: "jstring option"
  story :: "jstring option"
  created_time :: "jstring option"
  backdated_time :: "jstring option"
  from_name :: "jstring option"
  status_type :: "jstring option"
  place_name :: "jstring option"
  attachments :: "attachment list option"
  full_picture :: "jstring option"

record feed_json =
  fj_data :: "facebook_post list option"
  fj_after :: "jstring option"

record feed_response =
  fr_status :: nat
  fr_text :: jstring
  fr_json :: "feed_json option"

record author_profile =
  ap_name :: "jstring option"
  ap_photo :: "jstring option"
  ap_location :: "jstring option"

text \<open>
  What one invocation reads from outside: the runtime's URL parser, the answers of the
  network (\<open>None\<close>: \<open>fetch\<close> itself rejects), whether a bucket write or delete succeeds,
  the UUID source, the clock and the configured base URL.
\<close>

record world =
  new_URL :: "jstring \<Rightarrow> url option"
  http_photo :: "jstring \<Rightarrow> photo_response option"
  graph_feed :: "feed_request \<Rightarrow> feed_response option"
  graph_profile :: "author_profile option"
  r2_put_ok :: "jstring \<Rightarrow> bool"
  r2_delete_ok :: "jstring \<Rightarrow> bool"
  randomUUID :: "nat \<Rightarrow> jstring"
  now_iso :: jstring
  sql_now :: jstring
  public_base_url :: "jstring option"

text \<open>\<open>Response.ok\<close>.\<close>

definition ok :: "nat \<Rightarrow> bool" where
  "ok st = (200 \<le> st \<and> st \<le> 299)"

text \<open>The id an AUTOINCREMENT column gives the next row: above every id in use or used.\<close>

definition next_id :: "nat \<Rightarrow> nat list \<Rightarrow> nat" where
  "next_id seq ids = Suc (fold max ids seq)"

definition str_of :: "jstring option \<Rightarrow> jstring" where
  "str_of v = (case v of None \<Rightarrow> [] | Some s \<Rightarrow> s)"

definition guessExtension :: "jstring \<Rightarrow> jstring" where
  "guessExtension contentType =
     (if js_includes contentType (js ''png'') then js ''png''
      else if js_includes contentType (js ''webp'') then js ''webp''
      else if js_includes contentType (js ''gif'') then js ''gif''
      else js ''jpg'')"

definition buildPublicPhotoUrl :: "world \<Rightarrow> jstring \<Rightarrow> jstring" where
  "buildPublicPhotoUrl w storageKey =
     (let base = map_option (\<lambda>b. if b \<noteq> [] \<and> last b = 47 then butlast b else b)
                   (public_base_url w)
      in if truthy base then the base @ js ''/photos/'' @ storageKey
         else js ''/photos/'' @ storageKey)"

definition persistPhotoFromUrl ::
  "world \<Rightarrow> sys_state \<Rightarrow> nat \<Rightarrow> jstring \<Rightarrow> int \<Rightarrow> sys_state \<times> (error + unit)" where
  "persistPhotoFromUrl w st eventId sourceUrl pos =
     (let st1 = st\<lparr>outbound := outbound st @ [PhotoGet sourceUrl]\<rparr> in
      case http_photo w sourceUrl of
        None \<Rightarrow> (st1, Inl NetworkError)
      | Some res \<Rightarrow>
          if \<not> ok (pr_status res)
          then (st1, Inl (Error (js ''photo fetch failed '' @ show_nat (pr_status res))))
          else
            (let contentType = (if truthy (pr_content_type res) then the (pr_content_type res)
                                else js ''image/jpeg'');
                 extension = guessExtension contentType;
                 storageKey = js ''events/'' @ show_nat eventId @ [47]
                              @ randomUUID w (uuid_ctr st1) @ [46] @ extension;
                 st2 = st1\<lparr>uuid_ctr := Suc (uuid_ctr st1)\<rparr>
             in if \<not> r2_put_ok w storageKey then (st2, Inl R2Error)
                else
                  (let st3 = st2\<lparr>bucket := (bucket st2)(storageKey \<mapsto>
                                 \<lparr>blob_body = pr_body res, blob_content_type = contentType\<rparr>)\<rparr>;
                       publicUrl = buildPublicPhotoUrl w storageKey;
                       nid = next_id (photo_seq st3) (map ph_id (photos st3));
                       row = \<lparr>ph_id = nid, event_id = eventId, storage_key = storageKey,
                              public_url = Some publicUrl, original_source_url = Some sourceUrl,
                              position = pos, ph_created_at = Some (sql_now w),
                              ph_updated_at = Some (sql_now w)\<rparr>
                   in (st3\<lparr>photos := photos st3 @ [row], photo_seq := nid\<rparr>, Inr ()))))"

section \<open>The reconciliation engine\<close>

record upsert_result =
  processed :: bool
  inserted :: bool
  updated :: bool

text \<open>\<open>UPDATE event_photos SET position = ?, updated_at = ? WHERE id = ?\<close>\<close>

definition update_photo_position :: "sys_state \<Rightarrow> nat \<Rightarrow> int \<Rightarrow> jstring \<Rightarrow> sys_state" where
  "update_photo_position st pid pos now =
     st\<lparr>photos := map (\<lambda>p. if ph_id p = pid
                              then p\<lparr>position := pos, ph_updated_at := Some now\<rparr> else p)
                      (photos st)\<rparr>"

text \<open>\<open>DELETE FROM event_photos WHERE id = ?\<close>\<close>

definition delete_photo :: "sys_state \<Rightarrow> nat \<Rightarrow> sys_state" where
  "delete_photo st pid = st\<lparr>photos := filter (\<lambda>p. ph_id p \<noteq> pid) (photos st)\<rparr>"

text \<open>The map \<open>existingBySource\<close>: a later row with the same normalised URL replaces an earlier one.\<close>

fun index_by_source ::
  "(jstring \<Rightarrow> url option) \<Rightarrow> photo_row list \<Rightarrow> (jstring \<rightharpoonup> photo_row) \<Rightarrow> (jstring \<rightharpoonup> photo_row)" where
  "index_by_source nu [] m = m"
| "index_by_source nu (p # ps) m =
     index_by_source nu ps
       (if truthy (original_source_url p)
        then m(normalizeSourceUrl nu (the (original_source_url p)) \<mapsto> p) else m)"

text \<open>
  The loop over \<open>photoUrls\<close>. The accumulator is the state, the running \<open>position\<close> and
  the set \<open>seenSources\<close>. A failure of \<open>persistPhotoFromUrl\<close> is caught: the state it
  left is kept and the position has been consumed.
\<close>

fun photo_loop ::
  "world \<Rightarrow> nat \<Rightarrow> (jstring \<rightharpoonup> photo_row) \<Rightarrow> jstring list
   \<Rightarrow> sys_state \<times> int \<times> jstring set \<Rightarrow> sys_state \<times> int \<times> jstring set" where
  "photo_loop w eventId existingBySource [] acc = acc"
| "photo_loop w eventId existingBySource (u # us) (st, pos, seen) =
     (if u = [] then photo_loop w eventId existingBySource us (st, pos, seen)
      else
        (let normalized = normalizeSourceUrl (new_URL w) u;
             seen' = insert normalized seen
         in case existingBySource normalized of
              Some existingPhoto \<Rightarrow>
                photo_loop w eventId existingBySource us
                  (update_photo_position st (ph_id existingPhoto) pos (now_iso w), pos + 1, seen')
            | None \<Rightarrow>
                photo_loop w eventId existingBySource us
                  (fst (persistPhotoFromUrl w st eventId u pos), pos + 1, seen')))"

text \<open>The loop that removes orphaned rows.\<close>

fun remove_orphans ::
  "(jstring \<Rightarrow> url option) \<Rightarrow> jstring set \<Rightarrow> photo_row list \<Rightarrow> sys_state \<Rightarrow> sys_state" where
  "remove_orphans nu seen [] st = st"
| "remove_orphans nu seen (p # ps) st =
     remove_orphans nu seen ps
       (if truthy (original_source_url p)
           \<and> normalizeSourceUrl nu (the (original_source_url p)) \<notin> seen
        then delete_photo st (ph_id p) else st)"

text \<open>
  The first half of \<open>upsertFacebookPost\<close>, for a post that has an identifier: the texts
  are derived, the event is looked up by \<open>external_id\<close> and origin (\<open>first()\<close>: the
  first matching row in table order), and the row is overwritten or inserted. The result
  is the new state, the event's id and whether the event existed.
\<close>

definition upsert_event_row ::
  "world \<Rightarrow> sys_state \<Rightarrow> facebook_post \<Rightarrow> author_profile option \<Rightarrow> bool
   \<Rightarrow> sys_state \<times> nat \<times> bool" where
  "upsert_event_row w st post authorProfile isLifeEvent =
     (let rawMessage = trim (str_of (message post));
          mainAttachment = getPrimaryAttachment (attachments post);
          structured = parseStructuredMessage rawMessage
                         (str_of (js_or (backdated_time post) (js_or (created_time post) (Some []))))
                         (attachments post) mainAttachment (place_name post);
          fullText = str_of (js_or (description structured)
                              (js_or (Some rawMessage)
                                (js_or (extractAttachmentText (attachments post))
                                  (js_or (Some (trim (str_of (story post)))) (Some [])))));
          split = splitMessage fullText;
          l1 = js_or (title structured) (Some (line1 split));
          l2 = line2 split;
          authorName = or_null (js_or (from_name post)
                                  (case authorProfile of None \<Rightarrow> None | Some a \<Rightarrow> ap_name a));
          authorPhoto = or_null (case authorProfile of None \<Rightarrow> None | Some a \<Rightarrow> ap_photo a);
          existing = find (\<lambda>e. external_id e = post_id post \<and> origin e = js ''facebook'')
                       (events st);
          now = now_iso w;
          evDate = js_or (eventDate structured) (js_or (created_time post) (Some now));
          evType = js_or (eventType structured)
                     (js_or (status_type post)
                        (Some (if isLifeEvent then js ''life_event'' else js ''memory'')));
          found = (case existing of None \<Rightarrow> False | Some e \<Rightarrow> ev_id e \<noteq> 0);
          eventId = (if found then ev_id (the existing)
                     else next_id (event_seq st) (map ev_id (events st)));
          st1 = (if found
                 then st\<lparr>events :=
                         map (\<lambda>e. if ev_id e = eventId
                                   then e\<lparr>event_date := evDate, event_type := evType,
                                          event_name_line_1 := l1, event_name_line_2 := l2,
                                          event_description := or_null (Some fullText),
                                          posted_by_name := authorName,
                                          posted_by_photo := authorPhoto, sync := 1,
                                          updated_at := Some now\<rparr>
                                   else e)
                           (events st)\<rparr>
                 else st\<lparr>events := events st @
                           [\<lparr>ev_id = eventId, external_id = post_id post,
                             external_source = Some (js ''facebook_post''),
                             event_date = evDate, event_type = evType,
                             event_name_line_1 = l1, event_name_line_2 = l2,
                             event_description = or_null (Some fullText),
                             posted_by_name = authorName, posted_by_photo = authorPhoto,
                             date_added = Some now, active = 1, approved = 0,
                             origin = js ''facebook'', sync = 1,
                             created_at = Some now, updated_at = Some now\<rparr>],
                         event_seq := eventId\<rparr>)
      in (st1, eventId, found))"

text \<open>The list \<open>photoUrls\<close>: the images of the attachment tree, or else the full picture.\<close>

definition photoUrls_of :: "facebook_post \<Rightarrow> jstring list" where
  "photoUrls_of post =
     (let extracted = extractPhotoUrls (attachments post)
      in if extracted = [] \<and> truthy (full_picture post)
         then [the (full_picture post)] else extracted)"

text \<open>
  The second half of \<open>upsertFacebookPost\<close>: the photos of the event are refreshed from
  the post, then the rows whose source was not seen are deleted.
\<close>

definition refresh_photos :: "world \<Rightarrow> sys_state \<Rightarrow> nat \<Rightarrow> facebook_post \<Rightarrow> sys_state" where
  "refresh_photos w st1 eventId post =
     (let existingPhotos = filter (\<lambda>p. event_id p = eventId) (photos st1);
          existingBySource = index_by_source (new_URL w) existingPhotos Map.empty;
          photoUrls = photoUrls_of post;
          looped = photo_loop w eventId existingBySource photoUrls (st1, 0, {});
          st2 = fst looped;
          seenSources = snd (snd looped)
      in remove_orphans (new_URL w) seenSources existingPhotos st2)"

definition upsertFacebookPost ::
  "world \<Rightarrow> sys_state \<Rightarrow> facebook_post \<Rightarrow> author_profile option \<Rightarrow> bool
   \<Rightarrow> sys_state \<times> upsert_result" where
  "upsertFacebookPost w st post authorProfile isLifeEvent =
     (if \<not> truthy (post_id post)
      then (st, \<lparr>processed = False, inserted = False, updated = False\<rparr>)
      else
        (let ev = upsert_event_row w st post authorProfile isLifeEvent;
             st1 = fst ev;
             eventId = fst (snd ev);
             found = snd (snd ev);
             st3 = refresh_photos w st1 eventId post
         in (st3, \<lparr>processed = True, inserted = \<not> found, updated = found\<rparr>)))"

text \<open>Whether the download of a photo succeeds: \<open>fetch\<close> resolves and the status is a success.\<close>

definition photo_ok :: "world \<Rightarrow> jstring \<Rightarrow> bool" where
  "photo_ok w u = (case http_photo w u of None \<Rightarrow> False | Some res \<Rightarrow> ok (pr_status res))"

section \<open>The feed client\<close>

text \<open>
  One page of the feed. The request that leaves the worker is recorded in \<open>outbound\<close>;
  a non-success status throws an \<open>Error\<close> whose message holds the status and the body.
\<close>

definition feed_request_of :: "int option \<Rightarrow> jstring option \<Rightarrow> feed_request" where
  "feed_request_of lim cur =
     (let limit = (case lim of
                     None \<Rightarrow> 25
                   | Some l \<Rightarrow> (if l \<noteq> 0 \<and> l > 0 then min l 100 else 25));
          after = or_null cur
      in \<lparr>rq_limit = limit, rq_after = after\<rparr>)"

definition fetchFacebookFeed ::
  "world \<Rightarrow> sys_state \<Rightarrow> int option \<Rightarrow> jstring option
   \<Rightarrow> sys_state \<times> (error + facebook_post list \<times> jstring option)" where
  "fetchFacebookFeed w st lim cur =
     (let rq = feed_request_of lim cur;
          st1 = st\<lparr>outbound := outbound st @ [FeedGet rq]\<rparr>
      in case graph_feed w rq of
           None \<Rightarrow> (st1, Inl NetworkError)
         | Some res \<Rightarrow>
             if \<not> ok (fr_status res)
             then (st1, Inl (Error (js ''Facebook API error '' @ show_nat (fr_status res)
                                    @ js '': '' @ fr_text res)))
             else
               (case fr_json res of
                  None \<Rightarrow> (st1, Inl SyntaxError)
                | Some j \<Rightarrow>
                    (st1, Inr ((case fj_data j of None \<Rightarrow> [] | Some d \<Rightarrow> d), fj_after j))))"

section \<open>The batch controller\<close>

definition hasLifeEventAttachment :: "facebook_post \<Rightarrow> bool" where
  "hasLifeEventAttachment post =
     (if (case attachments post of None \<Rightarrow> False | Some dat \<Rightarrow> list_ex is_life_event dat)
      then True
      else if status_type post = Some (js ''created_event'') then True
      else (case attachments post of
              None \<Rightarrow> False
            | Some dat \<Rightarrow>
                list_ex (\<lambda>att. case subattachments att of
                                 None \<Rightarrow> False
                               | Some subs \<Rightarrow> list_ex is_life_event subs) dat))"

record counters =
  n_processed :: nat
  n_inserted :: nat
  n_updated :: nat

text \<open>
  The inner loop over the posts of one page: a post with neither message nor story is
  skipped, and the loop is left once the target is reached. The \<open>catch\<close> around the
  call of \<open>upsertFacebookPost\<close> has no branch here: the only error the model lets that
  function meet, a failed photo, is caught inside it.
\<close>

fun process_posts ::
  "world \<Rightarrow> author_profile option \<Rightarrow> int \<Rightarrow> facebook_post list
   \<Rightarrow> sys_state \<times> counters \<Rightarrow> sys_state \<times> counters" where
  "process_posts w authorProfile maxTotal [] acc = acc"
| "process_posts w authorProfile maxTotal (post # rest) (st, c) =
     (if \<not> truthy (message post) \<and> \<not> truthy (story post)
      then process_posts w authorProfile maxTotal rest (st, c)
      else if int (n_processed c) \<ge> maxTotal then (st, c)
      else
        (let isLifeEvent = (hasLifeEventAttachment post
                            \<or> status_type post = Some (js ''life_event''));
             res = upsertFacebookPost w st post authorProfile isLifeEvent;
             r = snd res;
             c' = (if processed r
                   then \<lparr>n_processed = n_processed c + 1,
                         n_inserted = (if inserted r then n_inserted c + 1 else n_inserted c),
                         n_updated = (if updated r then n_updated c + 1 else n_updated c)\<rparr>
                   else c)
         in process_posts w authorProfile maxTotal rest (fst res, c')))"

record loop_state =
  cursor :: "jstring option"
  iterations :: nat
  lastCursor :: "jstring option"
  counts :: counters

text \<open>The \<open>while\<close> loop of \<open>syncFromFacebookToD1\<close>; a failed page fetch ends the batch.\<close>

function sync_loop ::
  "world \<Rightarrow> author_profile option \<Rightarrow> int \<Rightarrow> int \<Rightarrow> sys_state \<Rightarrow> loop_state
   \<Rightarrow> sys_state \<times> (error + loop_state)" where
  "sync_loop w authorProfile limit maxTotal st ls =
     (if int (n_processed (counts ls)) < maxTotal \<and> iterations ls < 20 then
        (case fetchFacebookFeed w st (Some limit) (cursor ls) of
           (st1, Inl e) \<Rightarrow> (st1, Inl e)
         | (st1, Inr (posts, nextCursor)) \<Rightarrow>
             if posts = [] then (st1, Inr ls)
             else
               (let done = process_posts w authorProfile maxTotal posts (st1, counts ls);
                    ls1 = ls\<lparr>counts := snd done,
                             lastCursor := (if truthy nextCursor then nextCursor
                                            else lastCursor ls)\<rparr>
                in if int (n_processed (counts ls1)) \<ge> maxTotal \<or> \<not> truthy nextCursor
                   then (fst done, Inr ls1)
                   else sync_loop w authorProfile limit maxTotal (fst done)
                          (ls1\<lparr>cursor := nextCursor, iterations := iterations ls + 1\<rparr>)))
      else (st, Inr ls))"
  by pat_completeness auto
termination
  by (relation "measure (\<lambda>(w, ap, limit, maxTotal, st, ls). 20 - iterations ls)") auto


record sync_summary =
  eventsProcessed :: nat
  sum_inserted :: nat
  sum_updated :: nat
  nextCursor :: "jstring option"
  hasMore :: bool






section \<open>The duplicate janitor\<close>

text \<open>
  \<open>ROW_NUMBER() OVER (PARTITION BY ... ORDER BY id)\<close> of a row among the ranked rows: one
  more than the number of rows of its partition with a smaller id (ids are a primary key).
\<close>

definition row_number ::
  "(event_row \<Rightarrow> event_row \<Rightarrow> bool) \<Rightarrow> event_row list \<Rightarrow> event_row \<Rightarrow> nat" where
  "row_number same ranked e =
     Suc (length (filter (\<lambda>e'. same e' e \<and> ev_id e' < ev_id e) ranked))"

definition dup_event_ids ::
  "(event_row \<Rightarrow> bool) \<Rightarrow> (event_row \<Rightarrow> event_row \<Rightarrow> bool) \<Rightarrow> event_row list \<Rightarrow> nat list" where
  "dup_event_ids wanted same es =
     (let ranked = filter wanted es
      in map ev_id (filter (\<lambda>e. 1 < row_number same ranked e) ranked))"

text \<open>\<open>EVENT_PHOTOS_BUCKET.delete(key).catch(() => {})\<close>\<close>

definition r2_delete :: "world \<Rightarrow> jstring \<Rightarrow> sys_state \<Rightarrow> sys_state" where
  "r2_delete w key st = (if r2_delete_ok w key then st\<lparr>bucket := (bucket st)(key := None)\<rparr> else st)"

text \<open>
  Removing the events with the given ids: the blobs of their photos first, then the rows;
  the schema's \<open>ON DELETE CASCADE\<close> takes their photo rows with them.
\<close>

definition delete_events :: "world \<Rightarrow> nat list \<Rightarrow> sys_state \<Rightarrow> sys_state" where
  "delete_events w ids st =
     (let photoRows = filter (\<lambda>p. event_id p \<in> set ids) (photos st);
          st1 = fold (\<lambda>p s. if storage_key p \<noteq> [] then r2_delete w (storage_key p) s else s)
                  photoRows st
      in st1\<lparr>events := filter (\<lambda>e. ev_id e \<notin> set ids) (events st1),
              photos := filter (\<lambda>p. event_id p \<notin> set ids) (photos st1)\<rparr>)"

text \<open>
  The photos the third pass deletes: within one event and one normalised source URL,
  every row but the one with the smallest id.
\<close>

definition dup_photos :: "(jstring \<Rightarrow> url option) \<Rightarrow> photo_row list \<Rightarrow> photo_row list" where
  "dup_photos nu allPhotos =
     filter (\<lambda>p. truthy (original_source_url p)
                 \<and> list_ex (\<lambda>q. truthy (original_source_url q)
                                \<and> event_id q = event_id p
                                \<and> normalizeSourceUrl nu (the (original_source_url q))
                                    = normalizeSourceUrl nu (the (original_source_url p))
                                \<and> ph_id q < ph_id p) allPhotos)
       allPhotos"

record dedupe_result =
  eventsRemoved :: nat
  photosRemoved :: nat

definition cleanDuplicates :: "world \<Rightarrow> sys_state \<Rightarrow> sys_state \<times> dedupe_result" where
  "cleanDuplicates w st =
     (let ids1 = dup_event_ids (\<lambda>e. external_source e \<noteq> None \<and> external_id e \<noteq> None)
                   (\<lambda>a b. external_source a = external_source b \<and> external_id a = external_id b)
                   (events st);
          st1 = (if ids1 \<noteq> [] then delete_events w ids1 st else st);
          removed1 = (if ids1 \<noteq> [] then length ids1 else 0);
          ids2 = dup_event_ids (\<lambda>e. external_id e \<noteq> None \<and> origin e = js ''facebook'')
                   (\<lambda>a b. external_id a = external_id b)
                   (events st1);
          st2 = (if ids2 \<noteq> [] then delete_events w ids2 st1 else st1);
          removed2 = (if ids2 \<noteq> [] then removed1 + length ids2 else removed1);
          toDelete = dup_photos (new_URL w) (photos st2);
          st3 = (if toDelete \<noteq> []
                 then (let s = fold (\<lambda>d s. if storage_key d \<noteq> [] then r2_delete w (storage_key d) s
                                           else s) toDelete st2
                       in s\<lparr>photos := filter (\<lambda>p. ph_id p \<notin> set (map ph_id toDelete)) (photos s)\<rparr>)
                 else st2)
      in (st3, \<lparr>eventsRemoved = removed2,
                photosRemoved = (if toDelete \<noteq> [] then length toDelete else 0)\<rparr>))"

section \<open>Example inputs\<close>

text \<open>
  A toy URL parser for the concrete runs below: it accepts a text that starts with \<open>h\<close>
  and cuts it at the first \<open>?\<close> or \<open>#\<close>.
\<close>

definition example_new_URL :: "jstring \<Rightarrow> url option" where
  "example_new_URL t =
     (if t \<noteq> [] \<and> hd t = 104
      then Some \<lparr>url_base = takeWhile (\<lambda>c. c \<noteq> 63 \<and> c \<noteq> 35) t,
                 url_opaque = False,
                 url_search = takeWhile (\<lambda>c. c \<noteq> 35) (dropWhile (\<lambda>c. c \<noteq> 63 \<and> c \<noteq> 35) t),
                 url_hash = dropWhile (\<lambda>c. c \<noteq> 35) t\<rparr>
      else None)"

definition example_post :: facebook_post where
  "example_post =
     \<lparr>post_id = None, message = Some (js ''hello''), story = None, created_time = None,
      backdated_time = None, from_name = None, status_type = None, place_name = None,
      attachments = None, full_picture = None\<rparr>"

text \<open>
  An environment in which every photo download and every bucket write succeeds and the
  feed answers every page request with status 500.
\<close>

definition example_world :: world where
  "example_world =
     \<lparr>new_URL = example_new_URL,
      http_photo = (\<lambda>u. Some \<lparr>pr_status = 200, pr_content_type = Some (js ''image/png''),
                               pr_body = [1, 2, 3]\<rparr>),
      graph_feed = (\<lambda>rq. Some \<lparr>fr_status = 500, fr_text = js ''boom'', fr_json = None\<rparr>),
      graph_profile = None,
      r2_put_ok = (\<lambda>k. True),
      r2_delete_ok = (\<lambda>k. True),
      randomUUID = (\<lambda>n. js ''u'' @ show_nat n),
      now_iso = js ''T1'',
      sql_now = js ''T0'',
      public_base_url = None\<rparr>"

definition empty_state :: sys_state where
  "empty_state =
     \<lparr>events = [], event_seq = 0, photos = [], photo_seq = 0, bucket = Map.empty,
      uuid_ctr = 0, outbound = []\<rparr>"

text \<open>An event row reconciled from the post \<open>p1\<close>, with a given id.\<close>

definition example_event :: "nat \<Rightarrow> event_row" where
  "example_event n =
     \<lparr>ev_id = n, external_id = Some (js ''p1''), external_source = Some (js ''facebook_post''),
      event_date = None, event_type = Some (js ''memory''),
      event_name_line_1 = Some (js ''Memory''), event_name_line_2 = None,
      event_description = None, posted_by_name = None, posted_by_photo = None,
      date_added = None, active = 1, approved = 0, origin = js ''facebook'', sync = 1,
      created_at = None, updated_at = None\<rparr>"

definition three_rows :: sys_state where
  "three_rows = empty_state\<lparr>events := [example_event 5, example_event 3, example_event 9],
                            event_seq := 9\<rparr>"

text \<open>
  Three photo URLs and posts that show them: one whose attachment tree yields
  \<open>[A, B, A]\<close> (an album whose cover is repeated among its pictures) and one that yields
  \<open>[B, C]\<close>.
\<close>

definition url_A :: jstring where
  "url_A = js ''http://h/A''"

definition url_B :: jstring where
  "url_B = js ''http://h/B''"

definition url_C :: jstring where
  "url_C = js ''http://h/C''"

definition picture :: "jstring \<Rightarrow> attachment" where
  "picture u = Attachment (Some u) None None None None None"

definition post_ABA :: facebook_post where
  "post_ABA = example_post\<lparr>post_id := Some (js ''p1''),
                attachments := Some [Attachment (Some url_A) (Some [picture url_B, picture url_A])
                                       None None None None]\<rparr>"

definition post_BC :: facebook_post where
  "post_BC = example_post\<lparr>post_id := Some (js ''p1''),
               attachments := Some [picture url_B, picture url_C]\<rparr>"

text \<open>An event with id 1 for the post \<open>p1\<close>, with stored photos for A and B and their blobs.\<close>

definition example_photo :: "nat \<Rightarrow> jstring \<Rightarrow> jstring \<Rightarrow> int \<Rightarrow> photo_row" where
  "example_photo n key u pos =
     \<lparr>ph_id = n, event_id = 1, storage_key = key, public_url = Some (js ''/photos/'' @ key),
      original_source_url = Some u, position = pos, ph_created_at = None,
      ph_updated_at = None\<rparr>"

definition key_A :: jstring where
  "key_A = js ''events/1/a.png''"

definition key_B :: jstring where
  "key_B = js ''events/1/b.png''"

definition example_blob :: blob where
  "example_blob = \<lparr>blob_body = [1, 2, 3], blob_content_type = js ''image/png''\<rparr>"

definition state_AB :: sys_state where
  "state_AB =
     \<lparr>events = [example_event 1], event_seq = 1,
      photos = [example_photo 1 key_A url_A 0, example_photo 2 key_B url_B 1], photo_seq = 2,
      bucket = [key_A \<mapsto> example_blob, key_B \<mapsto> example_blob],
      uuid_ctr = 0, outbound = []\<rparr>"





section \<open>The batch, page by page\<close>

text \<open>
  The batch as the specification words it, without the loop. The answer of the feed to a
  page request depends on the limit and the cursor only.
\<close>

definition feed_page ::
  "world \<Rightarrow> int \<Rightarrow> jstring option \<Rightarrow> error + facebook_post list \<times> jstring option" where
  "feed_page w limit c = snd (fetchFacebookFeed w empty_state (Some limit) c)"

text \<open>A post that a batch counts: it carries a message or a story, and an identifier.\<close>

definition reconcilable :: "facebook_post \<Rightarrow> bool" where
  "reconcilable p = ((truthy (message p) \<or> truthy (story p)) \<and> truthy (post_id p))"

text \<open>
  Where a batch stands between two pages: the cursor of the next request, the number of
  posts processed so far, and the last cursor kept for the summary.
\<close>

record progress =
  pg_cursor :: "jstring option"
  pg_processed :: nat
  pg_last :: "jstring option"

text \<open>
  One page further, for the target \<open>T\<close>: the posts of the page that count are added, up
  to the target; the page's cursor is kept when the page has posts and a cursor.
\<close>

definition page_step :: "world \<Rightarrow> int \<Rightarrow> nat \<Rightarrow> progress \<Rightarrow> progress" where
  "page_step w limit T pr =
     (case feed_page w limit (pg_cursor pr) of
        Inl e \<Rightarrow> pr
      | Inr (posts, nc) \<Rightarrow>
          \<lparr>pg_cursor = nc,
           pg_processed = min T (pg_processed pr + length (filter reconcilable posts)),
           pg_last = (if posts \<noteq> [] \<and> truthy nc then nc else pg_last pr)\<rparr>)"

definition after_pages :: "world \<Rightarrow> int \<Rightarrow> nat \<Rightarrow> progress \<Rightarrow> nat \<Rightarrow> progress" where
  "after_pages w limit T pr n = (page_step w limit T ^^ n) pr"







declare show_nat.simps [simp del]

declare sync_loop.simps [simp del]

section \<open>Headline split: properties\<close>

lemma trim_unchanged:
  assumes "s \<noteq> []" and "\<not> is_space (hd s)" and "\<not> is_space (last s)"
  shows "trim s = s"
proof -
  have head_kept: "dropWhile is_space s = s"
    using assms by (cases s) auto
  have tail_kept: "dropWhile is_space (rev s) = rev s"
    using assms by (cases "rev s") (auto simp: last_rev hd_rev)
  show ?thesis
    by (simp add: trim_def head_kept tail_kept)
qed

lemma split_lines_single: "10 \<notin> set s \<Longrightarrow> split_lines s = [s]"
  by (induction s rule: split_lines.induct) auto

text \<open>
  C9. The headline split maps \<open>"Hello\nworld extra text"\<close> to line1 \<open>"Hello"\<close> and line2
  \<open>"world extra text"\<close>, and the empty string to line1 \<open>"Memory"\<close> and no line2. A message
  that is one line of 130 code units (no line feed, no white space at either end, so that
  trimming leaves it alone) gets as line1 its first 119 code units followed by the
  ellipsis, 120 code units in all.
\<close>

theorem splitMessage_headline:
  assumes "length s = 130" and "10 \<notin> set s"
    and "\<not> is_space (hd s)" and "\<not> is_space (last s)"
  shows "splitMessage (js ''Hello'' @ [10] @ js ''world extra text'')
           = \<lparr>line1 = js ''Hello'', line2 = Some (js ''world extra text'')\<rparr>
         \<and> splitMessage [] = \<lparr>line1 = js ''Memory'', line2 = None\<rparr>
         \<and> line1 (splitMessage s) = take 119 s @ [ellipsis]
         \<and> length (line1 (splitMessage s)) = 120"
proof -
  have ne: "s \<noteq> []"
    using assms(1) by auto
  have t: "trim s = s"
    using trim_unchanged [OF ne assms(3) assms(4)] .
  have l: "split_lines s = [s]"
    using split_lines_single [OF assms(2)] .
  have two_lines: "splitMessage (js ''Hello'' @ [10] @ js ''world extra text'')
           = \<lparr>line1 = js ''Hello'', line2 = Some (js ''world extra text'')\<rparr>"
    by (simp add: splitMessage_def js_def trim_def is_space_def or_null_def truthy_def
          truncate_js_def)
  have empty: "splitMessage [] = \<lparr>line1 = js ''Memory'', line2 = None\<rparr>"
    by (simp add: splitMessage_def)
  have long: "line1 (splitMessage s) = take 119 s @ [ellipsis]"
    using ne assms(1) by (simp add: splitMessage_def t l truncate_js_def)
  show ?thesis
    using two_lines empty long assms(1) by simp
qed

theorem splitMessage_headline_witness:
  "length (replicate 130 (120::nat)) = 130
   \<and> line1 (splitMessage (replicate 130 120)) = replicate 119 120 @ [8230]
   \<and> length (line1 (splitMessage (replicate 130 120))) = 120"
  using splitMessage_headline [of "replicate 130 120"]
  by (simp add: is_space_def ellipsis_def)

section \<open>Message structurer: properties\<close>

text \<open>
  The claim C4 as the specification states it fails: the text starts with the label
  \<open>Name:\<close>, and the pattern for the title asks for \<open>life event name\<close>, so no title is
  captured.
\<close>

theorem structured_override_title_counterexample:
  "title (parseStructuredMessage
            (js ''Name: Graduation'' @ [10] @ js ''Date: 2020-05-01'' @ [10]
             @ js ''Post: Proud moment'')
            [] None None None) \<noteq> Some (js ''Graduation'')"
  by (simp add: parseStructuredMessage_def nameMatch_def lits_def label_sep_def ci_def js_def
        or_null_def js_or_def truthy_def Let_def)

text \<open>
  C4 (amended). Parsing the raw text \<open>"Name: Graduation\nDate: 2020-05-01\nPost: Proud moment"\<close>
  with no attachments and no place, whatever the fallback date, yields no title,
  eventDate \<open>"2020-05-01"\<close> and description \<open>"Proud moment"\<close>.
\<close>

theorem structured_override:
  "parseStructuredMessage
     (js ''Name: Graduation'' @ [10] @ js ''Date: 2020-05-01'' @ [10] @ js ''Post: Proud moment'')
     fallbackDate None None None
   = \<lparr>title = None, description = Some (js ''Proud moment''),
      eventDate = Some (js ''2020-05-01''), eventType = None\<rparr>"
  by (simp add: parseStructuredMessage_def nameMatch_def dateMatch_def typeMatch_def postMatch_def
        extractAttachmentText_def lits_def label_sep_def ci_def js_def dot_def
        is_line_terminator_def is_space_def trim_def or_null_def js_or_def truthy_def Let_def)

text \<open>With the label the pattern asks for, the title is captured.\<close>

lemma life_event_name_label:
  "title (parseStructuredMessage
            (js ''Life Event Name: Graduation'' @ [10] @ js ''Date: 2020-05-01'')
            fallbackDate None None None) = Some (js ''Graduation'')"
  by (simp add: parseStructuredMessage_def nameMatch_def dateMatch_def typeMatch_def postMatch_def
        extractAttachmentText_def lits_def label_sep_def ci_def js_def dot_def
        is_line_terminator_def is_space_def trim_def or_null_def js_or_def truthy_def Let_def)

section \<open>Reconciliation: a post without an identifier\<close>

text \<open>
  C6. For a post that lacks an upstream identifier (absent or empty), reconcile returns
  processed = false and leaves the whole state as it was: no event row, no photo row, no
  blob and no outbound request.
\<close>

theorem upsert_without_id:
  assumes "\<not> truthy (post_id post)"
  shows "upsertFacebookPost w st post authorProfile isLifeEvent
         = (st, \<lparr>processed = False, inserted = False, updated = False\<rparr>)"
  using assms by (simp add: upsertFacebookPost_def)

theorem upsert_without_id_witness:
  "\<forall>w st authorProfile isLifeEvent.
     upsertFacebookPost w st example_post authorProfile isLifeEvent
     = (st, \<lparr>processed = False, inserted = False, updated = False\<rparr>)"
  using upsert_without_id [of example_post]
  by (simp add: example_post_def truthy_def)

section \<open>Feed client: a failed page\<close>

text \<open>
  C7. When the feed API answers a page request with a non-success status, the page fetch
  fails with an error whose message holds the status and the response body; no posts are
  returned, and exactly one request has left the worker (no retry). Inside the batch loop
  the same error ends the batch.
\<close>

theorem fetch_feed_failure:
  assumes "graph_feed w (feed_request_of lim cur) = Some res" and "\<not> ok (fr_status res)"
  shows "fetchFacebookFeed w st lim cur
           = (st\<lparr>outbound := outbound st @ [FeedGet (feed_request_of lim cur)]\<rparr>,
              Inl (Error (js ''Facebook API error '' @ show_nat (fr_status res) @ js '': ''
                          @ fr_text res)))
         \<and> (\<forall>authorProfile limit maxTotal ls.
               lim = Some limit \<and> cur = cursor ls
               \<and> int (n_processed (counts ls)) < maxTotal \<and> iterations ls < 20
               \<longrightarrow> sync_loop w authorProfile limit maxTotal st ls
                     = (st\<lparr>outbound := outbound st @ [FeedGet (feed_request_of lim cur)]\<rparr>,
                        Inl (Error (js ''Facebook API error '' @ show_nat (fr_status res)
                                    @ js '': '' @ fr_text res))))"
proof -
  have page: "fetchFacebookFeed w st lim cur
           = (st\<lparr>outbound := outbound st @ [FeedGet (feed_request_of lim cur)]\<rparr>,
              Inl (Error (js ''Facebook API error '' @ show_nat (fr_status res) @ js '': ''
                          @ fr_text res)))"
    using assms by (simp add: fetchFacebookFeed_def Let_def)
  show ?thesis
  proof (intro conjI allI impI)
    show "fetchFacebookFeed w st lim cur
           = (st\<lparr>outbound := outbound st @ [FeedGet (feed_request_of lim cur)]\<rparr>,
              Inl (Error (js ''Facebook API error '' @ show_nat (fr_status res) @ js '': ''
                          @ fr_text res)))"
      by (rule page)
  next
    fix authorProfile limit maxTotal and ls :: loop_state
    assume h: "lim = Some limit \<and> cur = cursor ls
               \<and> int (n_processed (counts ls)) < maxTotal \<and> iterations ls < 20"
    show "sync_loop w authorProfile limit maxTotal st ls
                     = (st\<lparr>outbound := outbound st @ [FeedGet (feed_request_of lim cur)]\<rparr>,
                        Inl (Error (js ''Facebook API error '' @ show_nat (fr_status res)
                                    @ js '': '' @ fr_text res)))"
      using h page by (subst sync_loop.simps) simp
  qed
qed

theorem fetch_feed_failure_witness:
  "\<not> ok 500
   \<and> fetchFacebookFeed example_world empty_state (Some 25) None
     = (empty_state\<lparr>outbound := [FeedGet \<lparr>rq_limit = 25, rq_after = None\<rparr>]\<rparr>,
        Inl (Error (js ''Facebook API error 500: boom'')))"
  using fetch_feed_failure [of example_world "Some 25" None
          "\<lparr>fr_status = 500, fr_text = js ''boom'', fr_json = None\<rparr>" empty_state]
  by (simp add: example_world_def empty_state_def ok_def feed_request_of_def or_null_def
        truthy_def js_def show_nat.simps)

section \<open>Source URL normalisation: properties\<close>

text \<open>
  A text the parser rejects comes back unchanged; a text it accepts comes back as the
  serialisation of the parsed URL with query and fragment cleared. What a second
  application returns depends on how the runtime parses that serialisation.
\<close>

lemma normalizeSourceUrl_unparseable:
  "nu t = None \<Longrightarrow> normalizeSourceUrl nu t = t"
  by (simp add: normalizeSourceUrl_def)

lemma normalizeSourceUrl_parsed:
  "nu t = Some u \<Longrightarrow> url_search u = [] \<Longrightarrow> url_hash u = [] \<Longrightarrow> \<not> url_opaque u
   \<Longrightarrow> normalizeSourceUrl nu t = url_base u"
  by (simp add: normalizeSourceUrl_def url_toString_def set_search_empty_def set_hash_empty_def
        strip_opaque_def)

section \<open>Duplicate janitor: properties\<close>

lemma events_fold_r2_delete:
  "events (fold (\<lambda>p s. if storage_key p \<noteq> [] then r2_delete w (storage_key p) s else s) ps st)
   = events st"
  by (induction ps arbitrary: st) (auto simp: r2_delete_def)

lemma events_delete_events:
  "events (delete_events w ids st) = filter (\<lambda>e. ev_id e \<notin> set ids) (events st)"
  by (simp add: delete_events_def Let_def events_fold_r2_delete)

lemma cleanDuplicates_events:
  "events (fst (cleanDuplicates w st)) =
     (let ids1 = dup_event_ids (\<lambda>e. external_source e \<noteq> None \<and> external_id e \<noteq> None)
                   (\<lambda>a b. external_source a = external_source b \<and> external_id a = external_id b)
                   (events st);
          es1 = filter (\<lambda>e. ev_id e \<notin> set ids1) (events st);
          ids2 = dup_event_ids (\<lambda>e. external_id e \<noteq> None \<and> origin e = js ''facebook'')
                   (\<lambda>a b. external_id a = external_id b) es1
      in filter (\<lambda>e. ev_id e \<notin> set ids2) es1)"
  by (simp add: cleanDuplicates_def Let_def events_delete_events events_fold_r2_delete)

lemma cleanDuplicates_eventsRemoved:
  "eventsRemoved (snd (cleanDuplicates w st)) =
     (let ids1 = dup_event_ids (\<lambda>e. external_source e \<noteq> None \<and> external_id e \<noteq> None)
                   (\<lambda>a b. external_source a = external_source b \<and> external_id a = external_id b)
                   (events st);
          es1 = filter (\<lambda>e. ev_id e \<notin> set ids1) (events st);
          ids2 = dup_event_ids (\<lambda>e. external_id e \<noteq> None \<and> origin e = js ''facebook'')
                   (\<lambda>a b. external_id a = external_id b) es1
      in length ids1 + length ids2)"
  by (simp add: cleanDuplicates_def Let_def events_delete_events events_fold_r2_delete)

lemma dup_event_ids_one_partition:
  assumes "\<forall>e\<in>set es. wanted e" and "\<forall>a\<in>set es. \<forall>b\<in>set es. same a b"
  shows "dup_event_ids wanted same es
         = map ev_id (filter (\<lambda>e. \<exists>e'\<in>set es. ev_id e' < ev_id e) es)"
proof -
  have ranked: "filter wanted es = es"
    using assms(1) by (simp add: filter_id_conv)
  have "filter (\<lambda>e. 1 < row_number same es e) es
        = filter (\<lambda>e. \<exists>e'\<in>set es. ev_id e' < ev_id e) es"
  proof (rule filter_cong [OF refl])
    fix e assume e: "e \<in> set es"
    have "(1 < row_number same es e) = (filter (\<lambda>e'. same e' e \<and> ev_id e' < ev_id e) es \<noteq> [])"
      by (simp add: row_number_def)
    also have "\<dots> = (\<exists>e'\<in>set es. same e' e \<and> ev_id e' < ev_id e)"
      by (simp add: filter_empty_conv)
    also have "\<dots> = (\<exists>e'\<in>set es. ev_id e' < ev_id e)"
      using assms(2) e by blast
    finally show "(1 < row_number same es e) = (\<exists>e'\<in>set es. ev_id e' < ev_id e)" .
  qed
  then show ?thesis
    by (simp add: dup_event_ids_def ranked)
qed

lemma dup_event_ids_single: "dup_event_ids wanted same [e] = []"
  by (simp add: dup_event_ids_def row_number_def)

lemma filter_key_distinct:
  assumes "distinct (map f xs)" and "x \<in> set xs"
  shows "filter (\<lambda>y. f y = f x) xs = [x]"
  using assms
proof (induction xs)
  case Nil
  then show ?case by simp
next
  case (Cons a xs)
  show ?case
  proof (cases "a = x")
    case True
    have "f x \<notin> f ` set xs"
      using Cons.prems(1) True by simp
    then have "filter (\<lambda>y. f y = f x) xs = []"
      unfolding filter_empty_conv by (metis image_eqI)
    then show ?thesis using True by simp
  next
    case False
    then have "x \<in> set xs" using Cons.prems(2) by simp
    moreover have "f a \<noteq> f x" using Cons.prems(1) \<open>x \<in> set xs\<close> by auto
    ultimately show ?thesis using Cons by simp
  qed
qed

lemma keep_lowest:
  assumes "es \<noteq> []" and "distinct (map ev_id es)"
  shows "\<exists>keep\<in>set es. (\<forall>e\<in>set es. ev_id keep \<le> ev_id e)
           \<and> filter (\<lambda>e. \<not> (\<exists>e'\<in>set es. ev_id e' < ev_id e)) es = [keep]"
proof -
  let ?m = "Min (ev_id ` set es)"
  have "?m \<in> ev_id ` set es"
    using assms(1) by (intro Min_in) auto
  then obtain keep where keep: "keep \<in> set es" "ev_id keep = ?m"
    by auto
  have low: "\<forall>e\<in>set es. ev_id keep \<le> ev_id e"
    using keep by (simp)
  have "filter (\<lambda>e. \<not> (\<exists>e'\<in>set es. ev_id e' < ev_id e)) es
        = filter (\<lambda>e. ev_id e = ev_id keep) es"
  proof (rule filter_cong [OF refl])
    fix e assume "e \<in> set es"
    then show "(\<not> (\<exists>e'\<in>set es. ev_id e' < ev_id e)) = (ev_id e = ev_id keep)"
      using low keep(1) by (metis leD le_neq_implies_less order_refl)
  qed
  also have "\<dots> = [keep]"
    using filter_key_distinct [OF assms(2) keep(1)] .
  finally show ?thesis
    using keep(1) low by blast
qed

text \<open>
  C8. In a store whose events table holds exactly three rows, with distinct ids and one
  common non-null (external_source, external_id) pair, one dedupe pass leaves exactly the
  row with the lowest id and reports eventsRemoved = 2.
\<close>

theorem janitor_three_rows:
  assumes "length (events st) = 3"
    and "distinct (map ev_id (events st))"
    and "\<forall>e\<in>set (events st). external_source e = Some src \<and> external_id e = Some xid"
  shows "\<exists>keep\<in>set (events st).
           (\<forall>e\<in>set (events st). ev_id keep \<le> ev_id e)
           \<and> events (fst (cleanDuplicates w st)) = [keep]
           \<and> eventsRemoved (snd (cleanDuplicates w st)) = 2"
proof -
  let ?es = "events st"
  let ?P = "\<lambda>e. \<exists>e'\<in>set ?es. ev_id e' < ev_id e"
  let ?ids1 = "dup_event_ids (\<lambda>e. external_source e \<noteq> None \<and> external_id e \<noteq> None)
                 (\<lambda>a b. external_source a = external_source b \<and> external_id a = external_id b) ?es"
  have ne: "?es \<noteq> []" using assms(1) by auto
  obtain keep where keep: "keep \<in> set ?es" "\<forall>e\<in>set ?es. ev_id keep \<le> ev_id e"
      "filter (\<lambda>e. \<not> ?P e) ?es = [keep]"
    using keep_lowest [OF ne assms(2)] by blast
  have ids1: "?ids1 = map ev_id (filter ?P ?es)"
    by (rule dup_event_ids_one_partition) (use assms(3) in auto)
  have "length (filter ?P ?es) + length (filter (\<lambda>e. \<not> ?P e) ?es) = length ?es"
    by (rule sum_length_filter_compl)
  then have n1: "length ?ids1 = 2"
    using keep(3) assms(1) ids1 by simp
  have "filter (\<lambda>e. ev_id e \<notin> set ?ids1) ?es = filter (\<lambda>e. \<not> ?P e) ?es"
  proof (rule filter_cong [OF refl])
    fix e assume "e \<in> set ?es"
    then show "(ev_id e \<notin> set ?ids1) = (\<not> ?P e)"
      unfolding ids1 by auto
  qed
  then have es1: "filter (\<lambda>e. ev_id e \<notin> set ?ids1) ?es = [keep]"
    using keep(3) by simp
  have "events (fst (cleanDuplicates w st)) = [keep]"
    unfolding cleanDuplicates_events Let_def es1 by (simp add: dup_event_ids_single)
  moreover have "eventsRemoved (snd (cleanDuplicates w st)) = 2"
    unfolding cleanDuplicates_eventsRemoved Let_def es1 n1 by (simp add: dup_event_ids_single)
  ultimately show ?thesis
    using keep(1,2) by blast
qed

theorem janitor_three_rows_witness:
  "events (fst (cleanDuplicates example_world three_rows)) = [example_event 3]
   \<and> eventsRemoved (snd (cleanDuplicates example_world three_rows)) = 2"
  using janitor_three_rows [of three_rows "js ''facebook_post''" "js ''p1''" example_world]
  by (auto simp: three_rows_def empty_state_def example_event_def)


section \<open>Reconciliation: idempotency\<close>

subsection \<open>What the photo refresh leaves alone\<close>

lemma persist_events [simp]:
  "events (fst (persistPhotoFromUrl w st eid u pos)) = events st"
  by (simp add: persistPhotoFromUrl_def Let_def split: option.splits)

lemma update_position_events [simp]:
  "events (update_photo_position st i pos now) = events st"
  by (simp add: update_photo_position_def)

lemma update_position_length [simp]:
  "length (photos (update_photo_position st i pos now)) = length (photos st)"
  by (simp add: update_photo_position_def)

lemma photo_loop_events [simp]:
  "events (fst (photo_loop w eid ex us (st, pos, seen))) = events st"
  by (induction us arbitrary: st pos seen) (auto simp: Let_def split: option.splits)

lemma remove_orphans_events [simp]:
  "events (remove_orphans nu seen ps st) = events st"
  by (induction ps arbitrary: st) (auto simp: delete_photo_def)

lemma refresh_photos_events [simp]:
  "events (refresh_photos w st eid post) = events st"
  by (simp add: refresh_photos_def Let_def)

subsection \<open>One download\<close>

lemma persist_failed:
  "\<not> photo_ok w u \<Longrightarrow> photos (fst (persistPhotoFromUrl w st eid u pos)) = photos st"
  by (auto simp: persistPhotoFromUrl_def photo_ok_def Let_def split: option.splits)

lemma persist_cases:
  "photos (fst (persistPhotoFromUrl w st eid u pos)) = photos st
   \<or> (\<exists>row. photos (fst (persistPhotoFromUrl w st eid u pos)) = photos st @ [row]
            \<and> event_id row = eid \<and> original_source_url row = Some u)"
  by (simp add: persistPhotoFromUrl_def Let_def split: option.splits)

lemma persist_succeeded:
  assumes "photo_ok w u" and "\<forall>k. r2_put_ok w k"
  shows "\<exists>row. photos (fst (persistPhotoFromUrl w st eid u pos)) = photos st @ [row]
            \<and> event_id row = eid \<and> original_source_url row = Some u"
  using assms by (auto simp: persistPhotoFromUrl_def photo_ok_def Let_def split: option.splits)

subsection \<open>The photo loop on an event without photos\<close>

lemma photo_loop_new_keeps:
  "set (photos st) \<subseteq> set (photos (fst (photo_loop w eid Map.empty us (st, pos, seen))))"
proof (induction us arbitrary: st pos seen)
  case Nil
  then show ?case by simp
next
  case (Cons u us)
  have step: "set (photos st) \<subseteq> set (photos (fst (persistPhotoFromUrl w st eid u pos)))"
    using persist_cases [of w st eid u pos] by auto
  show ?case
  proof (cases "u = []")
    case True
    then show ?thesis using Cons.IH by simp
  next
    case False
    then show ?thesis
      using step Cons.IH [of "fst (persistPhotoFromUrl w st eid u pos)"]
      by (simp add: Let_def) blast
  qed
qed

lemma photo_loop_new_rows:
  assumes "p \<in> set (photos (fst (photo_loop w eid Map.empty us (st, pos, seen))))"
  shows "p \<in> set (photos st)
         \<or> (event_id p = eid \<and> (\<exists>u\<in>set us. u \<noteq> [] \<and> original_source_url p = Some u))"
  using assms
proof (induction us arbitrary: st pos seen)
  case Nil
  then show ?case by simp
next
  case (Cons u us)
  show ?case
  proof (cases "u = []")
    case True
    then show ?thesis using Cons by auto
  next
    case False
    let ?st' = "fst (persistPhotoFromUrl w st eid u pos)"
    from Cons.prems False
    have "p \<in> set (photos (fst (photo_loop w eid Map.empty us
                 (?st', pos + 1, insert (normalizeSourceUrl (new_URL w) u) seen))))"
      by (simp add: Let_def)
    from Cons.IH [OF this]
    have "p \<in> set (photos ?st')
          \<or> (event_id p = eid \<and> (\<exists>u\<in>set us. u \<noteq> [] \<and> original_source_url p = Some u))" .
    then show ?thesis
      using persist_cases [of w st eid u pos] False by auto
  qed
qed

lemma photo_loop_new_downloaded:
  assumes "\<forall>k. r2_put_ok w k" and "u \<in> set us" and "u \<noteq> []" and "photo_ok w u"
  shows "\<exists>p\<in>set (photos (fst (photo_loop w eid Map.empty us (st, pos, seen)))).
           event_id p = eid \<and> original_source_url p = Some u"
  using assms(2)
proof (induction us arbitrary: st pos seen)
  case Nil
  then show ?case by simp
next
  case (Cons v us)
  let ?st' = "fst (persistPhotoFromUrl w st eid v pos)"
  let ?seen' = "insert (normalizeSourceUrl (new_URL w) v) seen"
  show ?case
  proof (cases "v = u")
    case True
    obtain added where added: "photos ?st' = photos st @ [added]" "event_id added = eid"
        "original_source_url added = Some u"
      using persist_succeeded [OF assms(4) assms(1), of st eid pos] True by auto
    have "added \<in> set (photos (fst (photo_loop w eid Map.empty us (?st', pos + 1, ?seen'))))"
      using photo_loop_new_keeps [of ?st' w eid us "pos + 1" ?seen'] added(1) by auto
    then show ?thesis
      using added True assms(3) by (auto simp: Let_def)
  next
    case False
    then have "u \<in> set us" using Cons.prems by simp
    then show ?thesis
      using Cons.IH by (cases "v = []") (auto simp: Let_def)
  qed
qed

subsection \<open>What the loop has seen\<close>

lemma photo_loop_seen:
  "snd (snd (photo_loop w eid ex us (st, pos, seen)))
   = seen \<union> normalizeSourceUrl (new_URL w) ` {u \<in> set us. u \<noteq> []}"
  by (induction us arbitrary: st pos seen) (auto simp: Let_def split: option.splits)

subsection \<open>The index of the stored photos\<close>

lemma index_by_source_defined:
  assumes "m k \<noteq> None
           \<or> (\<exists>p\<in>set ps. truthy (original_source_url p)
                  \<and> normalizeSourceUrl nu (the (original_source_url p)) = k)"
  shows "index_by_source nu ps m k \<noteq> None"
  using assms by (induction ps arbitrary: m) auto

subsection \<open>A loop that inserts nothing\<close>

lemma photo_loop_no_insert:
  assumes "\<forall>u\<in>set us. u \<noteq> [] \<longrightarrow>
             ex (normalizeSourceUrl (new_URL w) u) \<noteq> None \<or> \<not> photo_ok w u"
  shows "length (photos (fst (photo_loop w eid ex us (st, pos, seen)))) = length (photos st)"
  using assms
proof (induction us arbitrary: st pos seen)
  case Nil
  then show ?case by simp
next
  case (Cons u us)
  then have rest: "\<forall>u\<in>set us. u \<noteq> [] \<longrightarrow>
             ex (normalizeSourceUrl (new_URL w) u) \<noteq> None \<or> \<not> photo_ok w u"
    by simp
  show ?case
  proof (cases "u = []")
    case True
    then show ?thesis using Cons.IH [OF rest] by simp
  next
    case False
    show ?thesis
    proof (cases "ex (normalizeSourceUrl (new_URL w) u)")
      case None
      then have "\<not> photo_ok w u" using Cons.prems False by simp
      then show ?thesis
        using False None Cons.IH [OF rest] by (simp add: Let_def persist_failed)
    next
      case (Some p)
      then show ?thesis
        using False Cons.IH [OF rest] by (simp add: Let_def)
    qed
  qed
qed

lemma remove_orphans_none:
  assumes "\<forall>p\<in>set ps. truthy (original_source_url p)
             \<longrightarrow> normalizeSourceUrl nu (the (original_source_url p)) \<in> seen"
  shows "remove_orphans nu seen ps st = st"
  using assms by (induction ps arbitrary: st) auto

subsection \<open>The event row\<close>

lemma fold_max_ge: "(s::nat) \<le> fold max ids s"
proof (induction ids arbitrary: s)
  case Nil
  then show ?case by simp
next
  case (Cons i ids)
  have "s \<le> max i s" by simp
  also have "\<dots> \<le> fold max ids (max i s)" by (rule Cons.IH)
  finally show ?case by simp
qed

lemma fold_max_member: "i \<in> set ids \<Longrightarrow> (i::nat) \<le> fold max ids s"
proof (induction ids arbitrary: s)
  case Nil
  then show ?case by simp
next
  case (Cons j ids)
  show ?case
  proof (cases "i = j")
    case True
    have "i \<le> max j s" using True by simp
    also have "\<dots> \<le> fold max ids (max j s)" by (rule fold_max_ge)
    finally show ?thesis by simp
  next
    case False
    then show ?thesis using Cons by simp
  qed
qed

lemma next_id_fresh: "i \<in> set ids \<Longrightarrow> i < next_id seq ids"
  using fold_max_member [of i ids seq] by (simp add: next_id_def)

lemma upsert_event_row_new:
  assumes "\<forall>e\<in>set (events st). \<not> (external_id e = post_id post \<and> origin e = js ''facebook'')"
  shows "snd (upsert_event_row w st post ap le)
           = (next_id (event_seq st) (map ev_id (events st)), False)
         \<and> photos (fst (upsert_event_row w st post ap le)) = photos st
         \<and> (\<exists>row. events (fst (upsert_event_row w st post ap le)) = events st @ [row]
                \<and> ev_id row = next_id (event_seq st) (map ev_id (events st))
                \<and> external_id row = post_id post \<and> origin row = js ''facebook'')"
proof -
  have "find (\<lambda>e. external_id e = post_id post \<and> origin e = js ''facebook'') (events st) = None"
    using assms by (simp add: find_None_iff)
  then show ?thesis
    by (simp add: upsert_event_row_def Let_def)
qed

lemma upsert_event_row_existing:
  assumes "find (\<lambda>e. external_id e = post_id post \<and> origin e = js ''facebook'') (events st) = Some e"
    and "ev_id e \<noteq> 0"
  shows "snd (snd (upsert_event_row w st post ap le)) = True
         \<and> fst (snd (upsert_event_row w st post ap le)) = ev_id e
         \<and> photos (fst (upsert_event_row w st post ap le)) = photos st
         \<and> length (events (fst (upsert_event_row w st post ap le))) = length (events st)"
  using assms by (simp add: upsert_event_row_def Let_def)

lemma find_last_only:
  assumes "find P xs = None" and "P x"
  shows "find P (xs @ [x]) = Some x"
  using assms by (induction xs) (auto split: if_splits)

lemma refresh_photos_new:
  assumes "filter (\<lambda>p. event_id p = eid) (photos st) = []"
  shows "refresh_photos w st eid post
         = fst (photo_loop w eid Map.empty (photoUrls_of post) (st, 0, {}))"
  using assms by (simp add: refresh_photos_def Let_def)

text \<open>
  C1. A post with an upstream id that the store does not know yet is reconciled twice,
  unchanged. The store is well formed (every photo row belongs to an event row), the
  bucket writes of the first call succeed, and no download that failed in the first call
  succeeds in the second. Then the first call reports inserted, the second reports
  updated and not inserted, and the events table and the photos table have as many rows
  after the second call as after the first.
\<close>

theorem reconcile_twice:
  assumes id: "truthy (post_id post)"
    and new: "\<forall>e\<in>set (events st). \<not> (external_id e = post_id post \<and> origin e = js ''facebook'')"
    and fk: "\<forall>p\<in>set (photos st). event_id p \<in> ev_id ` set (events st)"
    and put: "\<forall>k. r2_put_ok w1 k"
    and dl: "\<forall>u\<in>set (photoUrls_of post). photo_ok w2 u \<longrightarrow> photo_ok w1 u"
  shows "snd (upsertFacebookPost w1 st post ap1 le1)
           = \<lparr>processed = True, inserted = True, updated = False\<rparr>
         \<and> snd (upsertFacebookPost w2 (fst (upsertFacebookPost w1 st post ap1 le1)) post ap2 le2)
           = \<lparr>processed = True, inserted = False, updated = True\<rparr>
         \<and> length (events (fst (upsertFacebookPost w2
                      (fst (upsertFacebookPost w1 st post ap1 le1)) post ap2 le2)))
           = length (events (fst (upsertFacebookPost w1 st post ap1 le1)))
         \<and> length (photos (fst (upsertFacebookPost w2
                      (fst (upsertFacebookPost w1 st post ap1 le1)) post ap2 le2)))
           = length (photos (fst (upsertFacebookPost w1 st post ap1 le1)))"
proof -
  let ?match = "\<lambda>e. external_id e = post_id post \<and> origin e = js ''facebook''"
  let ?us = "photoUrls_of post"
  define eid where "eid = next_id (event_seq st) (map ev_id (events st))"
  define s1 where "s1 = fst (upsert_event_row w1 st post ap1 le1)"
  have ev1: "snd (upsert_event_row w1 st post ap1 le1) = (eid, False)"
    and photos_s1: "photos s1 = photos st"
    using upsert_event_row_new [OF new, of w1 ap1 le1] by (simp_all add: eid_def s1_def)
  obtain row where row: "events s1 = events st @ [row]"
      "ev_id row = eid" "external_id row = post_id post" "origin row = js ''facebook''"
    using upsert_event_row_new [OF new, of w1 ap1 le1] unfolding eid_def s1_def by blast
  define s3 where "s3 = refresh_photos w1 s1 eid post"
  have first: "upsertFacebookPost w1 st post ap1 le1
               = (s3, \<lparr>processed = True, inserted = True, updated = False\<rparr>)"
    using id ev1 by (simp add: upsertFacebookPost_def Let_def s1_def s3_def)
  have none1: "filter (\<lambda>p. event_id p = eid) (photos s1) = []"
  proof -
    have "event_id p \<noteq> eid" if "p \<in> set (photos st)" for p
    proof -
      have "event_id p \<in> set (map ev_id (events st))"
        using fk that by simp
      then have "event_id p < eid"
        unfolding eid_def by (rule next_id_fresh)
      then show ?thesis by simp
    qed
    then show ?thesis
      by (simp add: photos_s1 filter_empty_conv)
  qed
  have s3_loop: "s3 = fst (photo_loop w1 eid Map.empty ?us (s1, 0, {}))"
    unfolding s3_def by (rule refresh_photos_new [OF none1])
  have events_s3: "events s3 = events st @ [row]"
    by (simp add: s3_def row(1))
  have found: "find ?match (events s3) = Some row"
  proof -
    have "find ?match (events st) = None"
      using new by (simp add: find_None_iff)
    then show ?thesis
      using row(3,4) by (simp add: events_s3 find_last_only)
  qed
  have eid_pos: "ev_id row \<noteq> 0"
    using row(2) by (simp add: eid_def next_id_def)
  define ev2 where "ev2 = upsert_event_row w2 s3 post ap2 le2"
  define t1 where "t1 = fst ev2"
  have ev2: "snd (snd ev2) = True" "fst (snd ev2) = eid" "photos t1 = photos s3"
      "length (events t1) = length (events s3)"
    using upsert_event_row_existing [OF found eid_pos, of w2 ap2 le2] row(2)
    by (simp_all add: ev2_def t1_def)
  define t3 where "t3 = refresh_photos w2 t1 eid post"
  have second: "upsertFacebookPost w2 s3 post ap2 le2
                = (t3, \<lparr>processed = True, inserted = False, updated = True\<rparr>)"
    using id ev2(1,2) by (simp add: upsertFacebookPost_def Let_def t3_def t1_def ev2_def)
  define existing2 where "existing2 = filter (\<lambda>p. event_id p = eid) (photos t1)"
  define ex2 where "ex2 = index_by_source (new_URL w2) existing2 Map.empty"
  have known: "\<forall>u\<in>set ?us. u \<noteq> [] \<longrightarrow>
                 ex2 (normalizeSourceUrl (new_URL w2) u) \<noteq> None \<or> \<not> photo_ok w2 u"
  proof (intro ballI impI)
    fix u assume u: "u \<in> set ?us" "u \<noteq> []"
    show "ex2 (normalizeSourceUrl (new_URL w2) u) \<noteq> None \<or> \<not> photo_ok w2 u"
    proof (cases "photo_ok w2 u")
      case False
      then show ?thesis by simp
    next
      case True
      then have "photo_ok w1 u" using dl u(1) by simp
      from photo_loop_new_downloaded [OF put u(1) u(2) this, of eid s1 0 "{}"]
      obtain p where p: "p \<in> set (photos s3)" "event_id p = eid" "original_source_url p = Some u"
        unfolding s3_loop by blast
      have "p \<in> set existing2"
        using p(1,2) by (simp add: existing2_def ev2(3))
      moreover have "truthy (original_source_url p)"
        using p(3) u(2) by (simp add: truthy_def)
      ultimately have "\<exists>q\<in>set existing2. truthy (original_source_url q)
               \<and> normalizeSourceUrl (new_URL w2) (the (original_source_url q))
                   = normalizeSourceUrl (new_URL w2) u"
        using p(3) by (intro bexI [of _ p]) simp_all
      then have "ex2 (normalizeSourceUrl (new_URL w2) u) \<noteq> None"
        unfolding ex2_def by (intro index_by_source_defined) simp
      then show ?thesis by simp
    qed
  qed
  define looped where "looped = photo_loop w2 eid ex2 ?us (t1, 0, {})"
  have seen2: "snd (snd looped) = normalizeSourceUrl (new_URL w2) ` {u \<in> set ?us. u \<noteq> []}"
    by (simp add: looped_def photo_loop_seen)
  have all_seen: "\<forall>p\<in>set existing2. truthy (original_source_url p)
             \<longrightarrow> normalizeSourceUrl (new_URL w2) (the (original_source_url p)) \<in> snd (snd looped)"
  proof (intro ballI impI)
    fix p assume p: "p \<in> set existing2"
    then have in_s3: "p \<in> set (photos s3)" and ev: "event_id p = eid"
      by (simp_all add: existing2_def ev2(3))
    have "p \<notin> set (photos s1)"
      using none1 ev by (auto simp: filter_empty_conv)
    with photo_loop_new_rows [OF in_s3 [unfolded s3_loop]]
    obtain u where "u \<in> set ?us" "u \<noteq> []" "original_source_url p = Some u"
      by blast
    then show "normalizeSourceUrl (new_URL w2) (the (original_source_url p)) \<in> snd (snd looped)"
      by (auto simp: seen2)
  qed
  have t3_eq: "t3 = fst looped"
    unfolding t3_def refresh_photos_def Let_def
    using remove_orphans_none [OF all_seen, of "fst looped"]
    by (simp add: existing2_def ex2_def looped_def)
  have photos_same: "length (photos t3) = length (photos s3)"
    using photo_loop_no_insert [OF known, of eid t1 0 "{}"]
    by (simp add: t3_eq looped_def ev2(3))
  have events_same: "length (events t3) = length (events s3)"
    by (simp add: t3_def ev2(4))
  show ?thesis
    using photos_same events_same by (simp add: first second)
qed

section \<open>Reconciliation: concrete runs\<close>

text \<open>The definitions a concrete run unfolds.\<close>

lemmas js_eval = js_def truthy_def js_or_def or_null_def str_of_def trim_def is_space_def
  is_line_terminator_def

lemmas example_defs = example_world_def example_post_def example_event_def example_photo_def
  example_blob_def example_new_URL_def empty_state_def state_AB_def post_ABA_def post_BC_def
  url_A_def url_B_def url_C_def key_A_def key_B_def picture_def

lemmas structurer_defs = parseStructuredMessage_def nameMatch_def dateMatch_def typeMatch_def
  postMatch_def extractAttachmentText_def getPrimaryAttachment_def is_life_event_def
  lits_def label_sep_def ci_def dot_def splitMessage_def truncate_js_def

lemmas photo_defs = refresh_photos_def photoUrls_of_def extractPhotoUrls_def
  normalizeSourceUrl_def url_toString_def set_search_empty_def set_hash_empty_def
  strip_opaque_def persistPhotoFromUrl_def ok_def guessExtension_def
  buildPublicPhotoUrl_def next_id_def update_photo_position_def delete_photo_def show_nat.simps

lemma reconcile_ABA_rows:
  "map (\<lambda>p. (original_source_url p, position p))
     (photos (fst (upsertFacebookPost example_world empty_state post_ABA None False)))
   = [(Some url_A, 0), (Some url_B, 1), (Some url_A, 2)]
   \<and> length (events (fst (upsertFacebookPost example_world empty_state post_ABA None False))) = 1"
  by (simp add: upsertFacebookPost_def upsert_event_row_def Let_def js_eval example_defs
        structurer_defs photo_defs)

lemma reconcile_ABA_keys:
  "map storage_key
     (photos (fst (upsertFacebookPost example_world empty_state post_ABA None False)))
   = [js ''events/1/u0.png'', js ''events/1/u1.png'', js ''events/1/u2.png'']"
  by (simp add: upsertFacebookPost_def upsert_event_row_def Let_def js_eval example_defs
        structurer_defs photo_defs)

text \<open>
  C3 (what the code does). The post whose attachment tree yields \<open>[A, B, A]\<close> is
  reconciled into a store with no photos, all downloads succeeding: three photo rows are
  created, two of them for A (positions 0 and 2), each with a blob of its own. The claim
  asks for exactly one row for A.
\<close>

theorem duplicate_url_stored_twice:
  "photoUrls_of post_ABA = [url_A, url_B, url_A]
   \<and> photos empty_state = []
   \<and> map (\<lambda>p. (original_source_url p, position p))
        (photos (fst (upsertFacebookPost example_world empty_state post_ABA None False)))
      = [(Some url_A, 0), (Some url_B, 1), (Some url_A, 2)]
   \<and> distinct (map storage_key
        (photos (fst (upsertFacebookPost example_world empty_state post_ABA None False))))"
proof -
  have urls: "photoUrls_of post_ABA = [url_A, url_B, url_A]"
    by (simp add: photoUrls_of_def extractPhotoUrls_def example_defs truthy_def js_def)
  have "distinct (map storage_key
        (photos (fst (upsertFacebookPost example_world empty_state post_ABA None False))))"
    unfolding reconcile_ABA_keys by (simp add: js_def)
  then show ?thesis
    using urls reconcile_ABA_rows by (simp add: empty_state_def)
qed

text \<open>
  C2 (what the code does). The event has photos for A and B, and the post now shows B
  and C. After reconciling, the row for A is gone, B is kept at position 0 and a row for
  C is inserted at position 1, as the claim says; but the blob of A is still in the
  bucket, where the claim asks for it to be removed.
\<close>

theorem orphan_blob_left_behind:
  "map (\<lambda>p. (original_source_url p, storage_key p, position p)) (photos state_AB)
     = [(Some url_A, key_A, 0), (Some url_B, key_B, 1)]
   \<and> photoUrls_of post_BC = [url_B, url_C]
   \<and> map (\<lambda>p. (original_source_url p, position p))
        (photos (fst (upsertFacebookPost example_world state_AB post_BC None False)))
      = [(Some url_B, 0), (Some url_C, 1)]
   \<and> bucket (fst (upsertFacebookPost example_world state_AB post_BC None False)) key_A
      = Some example_blob"
proof -
  have before: "map (\<lambda>p. (original_source_url p, storage_key p, position p)) (photos state_AB)
     = [(Some url_A, key_A, 0), (Some url_B, key_B, 1)]"
    by (simp add: state_AB_def example_photo_def)
  have urls: "photoUrls_of post_BC = [url_B, url_C]"
    by (simp add: photoUrls_of_def extractPhotoUrls_def example_defs truthy_def js_def)
  have rows: "map (\<lambda>p. (original_source_url p, position p))
        (photos (fst (upsertFacebookPost example_world state_AB post_BC None False)))
      = [(Some url_B, 0), (Some url_C, 1)]"
    by (simp add: upsertFacebookPost_def upsert_event_row_def Let_def js_eval example_defs
          structurer_defs photo_defs)
  have blob: "bucket (fst (upsertFacebookPost example_world state_AB post_BC None False)) key_A
      = Some example_blob"
    by (simp add: upsertFacebookPost_def upsert_event_row_def Let_def js_eval example_defs
          structurer_defs photo_defs)
  show ?thesis
    using before urls rows blob by simp
qed

theorem reconcile_twice_witness:
  "snd (upsertFacebookPost example_world empty_state post_ABA None False)
     = \<lparr>processed = True, inserted = True, updated = False\<rparr>
   \<and> snd (upsertFacebookPost example_world
            (fst (upsertFacebookPost example_world empty_state post_ABA None False))
            post_ABA None False)
     = \<lparr>processed = True, inserted = False, updated = True\<rparr>
   \<and> length (events (fst (upsertFacebookPost example_world
            (fst (upsertFacebookPost example_world empty_state post_ABA None False))
            post_ABA None False))) = 1
   \<and> length (photos (fst (upsertFacebookPost example_world
            (fst (upsertFacebookPost example_world empty_state post_ABA None False))
            post_ABA None False))) = 3"
proof -
  have n: "length (photos (fst (upsertFacebookPost example_world empty_state post_ABA None False))) = 3"
    using reconcile_ABA_rows
    by (metis (no_types, lifting) length_map length_Cons list.size(3) numeral_3_eq_3 One_nat_def)
  have e: "length (events (fst (upsertFacebookPost example_world empty_state post_ABA None False))) = 1"
    using reconcile_ABA_rows by simp
  have "truthy (post_id post_ABA)"
    by (simp add: post_ABA_def example_post_def truthy_def js_def)
  moreover have "\<forall>e\<in>set (events empty_state).
      \<not> (external_id e = post_id post_ABA \<and> origin e = js ''facebook'')"
    by (simp add: empty_state_def)
  moreover have "\<forall>p\<in>set (photos empty_state). event_id p \<in> ev_id ` set (events empty_state)"
    by (simp add: empty_state_def)
  moreover have "\<forall>k. r2_put_ok example_world k"
    by (simp add: example_world_def)
  moreover have "\<forall>u\<in>set (photoUrls_of post_ABA).
      photo_ok example_world u \<longrightarrow> photo_ok example_world u"
    by simp
  ultimately show ?thesis
    using reconcile_twice [of post_ABA empty_state example_world example_world
            None False None False] n e
    by simp
qed

section \<open>Batch controller: properties\<close>

subsection \<open>Page requests are the only feed requests\<close>










subsection \<open>What one page adds to the counters\<close>




subsection \<open>The loop, page by page\<close>

lemma after_pages_0 [simp]: "after_pages w limit T pr 0 = pr"
  by (simp add: after_pages_def)






















end
